theory Spec2Isabelle
  imports Main "HOL-Library.Sublist"
begin

section \<open>Values, errors and tables\<close>

text \<open>
  The program is \<^verbatim>\<open>src/app.py\<close>. Its three pure functions are \<^verbatim>\<open>clean_data\<close>,
  \<^verbatim>\<open>get_email_domain\<close> and \<^verbatim>\<open>suggest_company_name\<close>.

  A value held by a cell of a data frame (and the argument of \<^verbatim>\<open>get_email_domain\<close>,
  which is applied to the cells of the Email column) is a string, a number, or the
  missing-value marker (pandas' NaN/None), written \<open>NA\<close>. A string is the list of the
  bytes of its UTF-8 text; the byte of \<open>@\<close> stands for nothing else in UTF-8, so
  splitting at \<open>@\<close> is the same on the bytes as on the characters.
\<close>

datatype cell = Str string | Num int | NA

text \<open>The exceptions the modelled code can raise.\<close>

datatype py_error = KeyError "string list" | IndexError | AttributeError

text \<open>
  A data frame: the column labels, and the rows in order. A row carries its index label
  (pandas keeps the label of a row through \<^verbatim>\<open>drop_duplicates\<close> and \<^verbatim>\<open>dropna\<close>) and
  its cells, one per column, in the order of the columns.
\<close>

type_synonym row = "nat \<times> cell list"

record table =
  columns :: "string list"
  rows :: "row list"

definition wf_table :: "table \<Rightarrow> bool" where
  "wf_table t = list_all (\<lambda>r. length (snd r) = length (columns t)) (rows t)"

text \<open>The cell of a row under a column label (the first such column).\<close>

definition cell_of :: "table \<Rightarrow> row \<Rightarrow> string \<Rightarrow> cell option" where
  "cell_of t r c = map_of (zip (columns t) (snd r)) c"

section \<open>The cleaner\<close>

text \<open>
  \<^verbatim>\<open>df.drop_duplicates()\<close>: with the default \<^verbatim>\<open>keep='first'\<close> a row is dropped when a row
  with the same cells (all columns; the index label is not compared, and missing values
  compare equal) stands before it. \<open>seen\<close> holds the cells of the rows passed so far.
  A frame with no column or no row is returned as it is.
\<close>

fun keep_first :: "cell list list \<Rightarrow> row list \<Rightarrow> row list" where
  "keep_first seen [] = []"
| "keep_first seen (r # rs) =
     (if snd r \<in> set seen then keep_first seen rs
      else r # keep_first (snd r # seen) rs)"

definition drop_duplicates :: "table \<Rightarrow> table" where
  "drop_duplicates df =
     (if columns df = [] \<or> rows df = [] then df
      else df\<lparr>rows := keep_first [] (rows df)\<rparr>)"

text \<open>
  \<^verbatim>\<open>df.dropna(subset=...)\<close>: raises \<^verbatim>\<open>KeyError\<close> with the labels of the given subset that are
  not columns of the frame; otherwise drops every row that has a missing value in a
  column of that subset (the default \<^verbatim>\<open>how='any'\<close>).
\<close>

definition isna :: "cell \<Rightarrow> bool" where
  "isna v = (v = NA)"

definition row_has_na :: "string list \<Rightarrow> string list \<Rightarrow> cell list \<Rightarrow> bool" where
  "row_has_na cols names cells =
     list_ex (\<lambda>cv. fst cv \<in> set names \<and> isna (snd cv)) (zip cols cells)"

definition dropna :: "string list \<Rightarrow> table \<Rightarrow> py_error + table" where
  "dropna names df =
     (let missing = filter (\<lambda>c. c \<notin> set (columns df)) names in
      if missing \<noteq> [] then Inl (KeyError missing)
      else Inr (df\<lparr>rows := filter (\<lambda>r. \<not> row_has_na (columns df) names (snd r)) (rows df)\<rparr>))"

text \<open>
  \<^verbatim>\<open>df.drop(columns=..., errors='ignore')\<close>: removes the named columns that exist, from
  the labels and from every row; a name that is no column is ignored.
\<close>

definition prune_cells :: "string list \<Rightarrow> string list \<Rightarrow> cell list \<Rightarrow> cell list" where
  "prune_cells names cols cells =
     map snd (filter (\<lambda>cv. fst cv \<notin> set names) (zip cols cells))"

definition drop_columns :: "string list \<Rightarrow> table \<Rightarrow> table" where
  "drop_columns names df =
     \<lparr>columns = filter (\<lambda>c. c \<notin> set names) (columns df),
      rows = map (\<lambda>r. (fst r, prune_cells names (columns df) (snd r))) (rows df)\<rparr>"

text \<open>\<^verbatim>\<open>clean_data\<close>, lines 24 to 31: the three steps in the order of the source.\<close>

definition clean_data :: "table \<Rightarrow> py_error + table" where
  "clean_data df =
     (case dropna [''First Name'', ''Email''] (drop_duplicates df) of
        Inl e \<Rightarrow> Inl e
      | Inr df2 \<Rightarrow> Inr (drop_columns [''Index'', ''Subscription Date''] df2))"

section \<open>Email domain extraction\<close>

text \<open>
  \<^verbatim>\<open>s.split(sep)\<close> for a separator of one character: the pieces between the separators,
  the empty string giving one empty piece.
\<close>

fun split :: "char \<Rightarrow> string \<Rightarrow> string list" where
  "split sep [] = [[]]"
| "split sep (c # cs) =
     (if c = sep then [] # split sep cs
      else (case split sep cs of
              [] \<Rightarrow> [[c]]
            | w # ws \<Rightarrow> (c # w) # ws))"

text \<open>\<^verbatim>\<open>xs[i]\<close> for an index that is not negative: \<^verbatim>\<open>IndexError\<close> out of range.\<close>

definition item :: "'a list \<Rightarrow> nat \<Rightarrow> py_error + 'a" where
  "item xs i = (if i < length xs then Inr (xs ! i) else Inl IndexError)"

text \<open>
  \<^verbatim>\<open>s.lower()\<close> is Python's lower-casing of Unicode text. It is a parameter \<open>lower\<close> of
  the model, a function from strings to strings, and every general theorem holds for
  any such function.

  What the concrete evaluations use of it is its value on ASCII strings (all bytes below
  128), where it maps the letters \<open>A\<close> to \<open>Z\<close> to \<open>a\<close> to \<open>z\<close> and leaves every other
  character as it is: \<open>ascii_lower\<close>. The hypothesis \<open>lowers_ascii lower\<close> says that
  \<open>lower\<close> is this map on ASCII strings, and nothing about other strings.
\<close>

definition ascii_string :: "string \<Rightarrow> bool" where
  "ascii_string s = list_all (\<lambda>c. (of_char c :: nat) < 128) s"

definition ascii_lower_char :: "char \<Rightarrow> char" where
  "ascii_lower_char c =
     (if 65 \<le> (of_char c :: nat) \<and> (of_char c :: nat) \<le> 90
      then char_of ((of_char c :: nat) + 32) else c)"

definition ascii_lower :: "string \<Rightarrow> string" where
  "ascii_lower s = map ascii_lower_char s"

definition lowers_ascii :: "(string \<Rightarrow> string) \<Rightarrow> bool" where
  "lowers_ascii lower = (\<forall>s. ascii_string s \<longrightarrow> lower s = ascii_lower s)"

text \<open>
  The body of the \<^verbatim>\<open>try\<close> of \<^verbatim>\<open>get_email_domain\<close>:
  \<^verbatim>\<open>email.split('@')[1].lower()\<close>. A value that is no string has no \<^verbatim>\<open>split\<close>.
\<close>

definition get_email_domain_try :: "(string \<Rightarrow> string) \<Rightarrow> cell \<Rightarrow> py_error + cell" where
  "get_email_domain_try lower email =
     (case email of
        Str s \<Rightarrow>
          (case item (split CHR ''@'' s) 1 of
             Inl e \<Rightarrow> Inl e
           | Inr d \<Rightarrow> Inr (Str (lower d)))
      | Num n \<Rightarrow> Inl AttributeError
      | NA \<Rightarrow> Inl AttributeError)"

text \<open>\<^verbatim>\<open>get_email_domain\<close>, lines 34 to 38: the bare \<^verbatim>\<open>except\<close> catches every error.\<close>

definition get_email_domain :: "(string \<Rightarrow> string) \<Rightarrow> cell \<Rightarrow> py_error + cell" where
  "get_email_domain lower email =
     (case get_email_domain_try lower email of
        Inr v \<Rightarrow> Inr v
      | Inl e \<Rightarrow> Inr (Str ''Unknown''))"

text \<open>
  The words of the specification for the same function: the substring after the first
  \<open>@\<close>, lower-cased, and \<open>Unknown\<close> for a string without \<open>@\<close>.
\<close>

definition domain_of_spec :: "(string \<Rightarrow> string) \<Rightarrow> string \<Rightarrow> string" where
  "domain_of_spec lower s =
     (if CHR ''@'' \<in> set s then lower (tl (dropWhile (\<lambda>c. c \<noteq> CHR ''@'') s))
      else ''Unknown'')"

section \<open>Company name suggestions\<close>

text \<open>
  \<^verbatim>\<open>fuzz.ratio\<close> belongs to the library fuzzywuzzy, outside the repository: it is a
  parameter \<open>ratio\<close> of the model, a function from two strings to a score. The module
  flag \<^verbatim>\<open>FUZZY_AVAILABLE\<close> is the parameter \<open>avail\<close>, and \<^verbatim>\<open>str.lower\<close> the parameter
  \<open>lower\<close>.

  The loop of lines 45 to 48 appends a pair for every company whose score reaches the
  threshold.
\<close>

definition suggestions_step ::
  "(string \<Rightarrow> string) \<Rightarrow> (string \<Rightarrow> string \<Rightarrow> int) \<Rightarrow> string \<Rightarrow> int
     \<Rightarrow> (string \<times> int) list \<Rightarrow> string \<Rightarrow> (string \<times> int) list" where
  "suggestions_step lower ratio input_name threshold suggestions company =
     (let score = ratio (lower input_name) (lower company) in
      if score \<ge> threshold then suggestions @ [(company, score)] else suggestions)"

definition suggestions_loop ::
  "(string \<Rightarrow> string) \<Rightarrow> (string \<Rightarrow> string \<Rightarrow> int) \<Rightarrow> string \<Rightarrow> int
     \<Rightarrow> string list \<Rightarrow> (string \<times> int) list" where
  "suggestions_loop lower ratio input_name threshold company_list =
     foldl (suggestions_step lower ratio input_name threshold) [] company_list"

text \<open>
  \<^verbatim>\<open>sorted(xs, key=f, reverse=True)\<close>: CPython reverses the list, sorts it stably in
  ascending order of the key, and reverses the result, which keeps elements of equal key
  in their original order.
\<close>

definition sorted_reverse :: "('a \<Rightarrow> int) \<Rightarrow> 'a list \<Rightarrow> 'a list" where
  "sorted_reverse f xs = rev (sort_key f (rev xs))"

text \<open>\<^verbatim>\<open>suggest_company_name\<close>, lines 41 to 49.\<close>

definition suggest_company_name ::
  "bool \<Rightarrow> (string \<Rightarrow> string) \<Rightarrow> (string \<Rightarrow> string \<Rightarrow> int) \<Rightarrow> string \<Rightarrow> string list \<Rightarrow> int
     \<Rightarrow> (string \<times> int) list" where
  "suggest_company_name avail lower ratio input_name company_list threshold =
     (if \<not> avail then []
      else take 3 (sorted_reverse snd
                     (suggestions_loop lower ratio input_name threshold company_list)))"

text \<open>
  A scoring function for concrete evaluations. \<^verbatim>\<open>fuzz.ratio\<close> gives 100 to two equal
  strings; the other value the evaluations below use is that of \<open>acme\<close> against
  \<open>globex\<close>, one matching character out of ten, which is 20. Every theorem about
  \<open>suggest_company_name\<close> holds for any scoring function. The evaluations are on ASCII
  strings, with \<open>ascii_lower\<close> for the lower-casing.
\<close>

definition sample_ratio :: "string \<Rightarrow> string \<Rightarrow> int" where
  "sample_ratio s1 s2 =
     (if s1 = s2 then 100
      else if s1 = ''acme'' \<and> s2 = ''globex'' then 20
      else 0)"

section \<open>Predicates and tables for the statements\<close>

text \<open>
  A row has a value under a column when the cell exists and is not the missing-value
  marker: what \<^verbatim>\<open>dropna\<close> tests.
\<close>

definition has_value :: "table \<Rightarrow> row \<Rightarrow> string \<Rightarrow> bool" where
  "has_value t r c = (case cell_of t r c of None \<Rightarrow> False | Some v \<Rightarrow> \<not> isna v)"

text \<open>
  The words of the specification, a non-empty field: the cell exists, is not missing,
  and is not the empty string.
\<close>

definition nonempty_field :: "table \<Rightarrow> row \<Rightarrow> string \<Rightarrow> bool" where
  "nonempty_field t r c =
     (case cell_of t r c of
        None \<Rightarrow> False
      | Some NA \<Rightarrow> False
      | Some (Num n) \<Rightarrow> True
      | Some (Str s) \<Rightarrow> s \<noteq> [])"

text \<open>
  An output row comes from an input row: the same index label, and the cells without the
  dropped columns.
\<close>

definition came_from :: "table \<Rightarrow> row \<Rightarrow> row \<Rightarrow> bool" where
  "came_from t r0 r =
     (r = (fst r0, prune_cells [''Index'', ''Subscription Date''] (columns t) (snd r0)))"

subsection \<open>Tables for concrete evaluations\<close>

text \<open>
  Five rows with an Index column: row 2 repeats row 0 in every field, row 3 has no
  Email. Cleaning it leaves three rows, under their labels 0, 1 and 4.
\<close>

definition five_rows :: table where
  "five_rows =
     \<lparr>columns = [''Index'', ''First Name'', ''Email'', ''Company''],
      rows = [(0, [Num 1, Str ''Ann'', Str ''ann@x.org'', Str ''Acme'']),
              (1, [Num 2, Str ''Bob'', Str ''bob@x.org'', Str ''Globex'']),
              (2, [Num 1, Str ''Ann'', Str ''ann@x.org'', Str ''Acme'']),
              (3, [Num 4, Str ''Cy'', NA, Str ''Acme'']),
              (4, [Num 5, Str ''Di'', Str ''di@x.org'', NA])]\<rparr>"

definition five_rows_clean :: table where
  "five_rows_clean =
     \<lparr>columns = [''First Name'', ''Email'', ''Company''],
      rows = [(0, [Str ''Ann'', Str ''ann@x.org'', Str ''Acme'']),
              (1, [Str ''Bob'', Str ''bob@x.org'', Str ''Globex'']),
              (4, [Str ''Di'', Str ''di@x.org'', NA])]\<rparr>"

text \<open>Two rows that differ in the Index column only, and what cleaning makes of them.\<close>

definition index_only_differs :: table where
  "index_only_differs =
     \<lparr>columns = [''Index'', ''First Name'', ''Email''],
      rows = [(0, [Num 1, Str ''Ann'', Str ''ann@x.org'']),
              (1, [Num 2, Str ''Ann'', Str ''ann@x.org''])]\<rparr>"

definition index_only_differs_clean :: table where
  "index_only_differs_clean =
     \<lparr>columns = [''First Name'', ''Email''],
      rows = [(0, [Str ''Ann'', Str ''ann@x.org'']),
              (1, [Str ''Ann'', Str ''ann@x.org''])]\<rparr>"

text \<open>A row whose First Name is the empty string, a value that is not missing.\<close>

definition empty_name :: table where
  "empty_name =
     \<lparr>columns = [''First Name'', ''Email''],
      rows = [(0, [Str [], Str ''ann@x.org''])]\<rparr>"

text \<open>A row without Email that stands twice.\<close>

definition duplicate_without_email :: table where
  "duplicate_without_email =
     \<lparr>columns = [''First Name'', ''Email''],
      rows = [(0, [Str ''Ann'', NA]), (1, [Str ''Ann'', NA])]\<rparr>"

text \<open>A table that has neither of the two required columns.\<close>

definition no_required_columns :: table where
  "no_required_columns =
     \<lparr>columns = [''Company'', ''Country''],
      rows = [(0, [Str ''Acme'', Str ''Chile''])]\<rparr>"

section \<open>Properties\<close>

subsection \<open>The cleaner: deduplication\<close>

lemma keep_first_subseq: "subseq (keep_first seen rs) rs"
  by (induction rs arbitrary: seen) auto

lemma keep_first_set: "set (keep_first seen rs) \<subseteq> set rs"
  by (induction rs arbitrary: seen) auto

text \<open>Of the rows with given cells, the first stays, unless the cells were seen before.\<close>

lemma keep_first_filter:
  "filter (\<lambda>r. snd r = cs) (keep_first seen rs) =
     (if cs \<in> set seen then [] else take 1 (filter (\<lambda>r. snd r = cs) rs))"
  by (induction rs arbitrary: seen) auto

lemma keep_first_fresh: "r \<in> set (keep_first seen rs) \<Longrightarrow> snd r \<notin> set seen"
proof (induction rs arbitrary: seen)
  case Nil
  then show ?case by simp
next
  case (Cons a rs)
  show ?case
  proof (cases "snd a \<in> set seen")
    case True
    with Cons show ?thesis by simp
  next
    case False
    with Cons.prems have "r = a \<or> r \<in> set (keep_first (snd a # seen) rs)" by simp
    then show ?thesis
    proof
      assume "r = a"
      with False show ?thesis by simp
    next
      assume "r \<in> set (keep_first (snd a # seen) rs)"
      then have "snd r \<notin> set (snd a # seen)" by (rule Cons.IH)
      then show ?thesis by simp
    qed
  qed
qed

lemma keep_first_distinct: "distinct (map snd (keep_first seen rs))"
  by (induction rs arbitrary: seen) (auto dest: keep_first_fresh)

lemma keep_first_id:
  "distinct (map snd rs) \<Longrightarrow> snd ` set rs \<inter> set seen = {} \<Longrightarrow> keep_first seen rs = rs"
  by (induction rs arbitrary: seen) auto

lemma keep_first_id_iff: "(keep_first [] rs = rs) = distinct (map snd rs)"
  using keep_first_distinct [of "[]" rs] keep_first_id [of rs "[]"] by auto

subsection \<open>The cleaner: columns and cells\<close>

lemma zip_prune:
  "zip (filter P cols) (map snd (filter (\<lambda>cv. P (fst cv)) (zip cols cells)))
     = filter (\<lambda>cv. P (fst cv)) (zip cols cells)"
proof (induction cols arbitrary: cells)
  case Nil
  then show ?case by simp
next
  case (Cons c cols)
  then show ?case by (cases cells) auto
qed

lemma map_of_filter_key:
  "P k \<Longrightarrow> map_of (filter (\<lambda>cv. P (fst cv)) zs) k = map_of zs k"
  by (induction zs) auto

lemma list_ex_filter_key:
  "(\<And>c. c \<in> set names \<Longrightarrow> P c) \<Longrightarrow>
     list_ex (\<lambda>cv. fst cv \<in> set names \<and> Q (snd cv)) (filter (\<lambda>cv. P (fst cv)) zs)
       = list_ex (\<lambda>cv. fst cv \<in> set names \<and> Q (snd cv)) zs"
  by (induction zs) auto

lemma map_rows_id:
  "(\<And>r. r \<in> set rs \<Longrightarrow> g (snd r) = snd r) \<Longrightarrow> map (\<lambda>r. (fst r, g (snd r))) rs = rs"
  by (induction rs) auto

text \<open>A column that is not dropped keeps its cell.\<close>

lemma cell_of_pruned:
  assumes "c \<notin> set names"
  shows "map_of (zip (filter (\<lambda>c. c \<notin> set names) cols) (prune_cells names cols cells)) c
           = map_of (zip cols cells) c"
  using assms
  by (simp add: prune_cells_def zip_prune [of "\<lambda>c. c \<notin> set names"]
                map_of_filter_key [of "\<lambda>c. c \<notin> set names"])

lemma row_has_na_pruned:
  assumes "set req \<inter> set names = {}"
  shows "row_has_na (filter (\<lambda>c. c \<notin> set names) cols) req (prune_cells names cols cells)
           = row_has_na cols req cells"
proof -
  have "\<And>c. c \<in> set req \<Longrightarrow> c \<notin> set names" using assms by auto
  then show ?thesis
    unfolding row_has_na_def prune_cells_def zip_prune [of "\<lambda>c. c \<notin> set names"]
    by (rule list_ex_filter_key [of req "\<lambda>c. c \<notin> set names"])
qed

lemma prune_cells_pruned:
  "prune_cells names (filter (\<lambda>c. c \<notin> set names) cols) (prune_cells names cols cells)
     = prune_cells names cols cells"
  by (simp add: prune_cells_def zip_prune [of "\<lambda>c. c \<notin> set names"])

lemma prune_cells_none:
  assumes "set cols \<inter> set names = {}" and "length cells = length cols"
  shows "prune_cells names cols cells = cells"
proof -
  have "filter (\<lambda>cv. fst cv \<notin> set names) (zip cols cells) = zip cols cells"
    using assms(1) by (auto simp: filter_id_conv dest: set_zip_leftD)
  then show ?thesis using assms(2) by (simp add: prune_cells_def)
qed

lemma no_na_has_value:
  assumes "c \<in> set cols" and "c \<in> set req" and "length cells = length cols"
    and "\<not> row_has_na cols req cells"
  shows "\<exists>v. map_of (zip cols cells) c = Some v \<and> v \<noteq> NA"
proof -
  from assms(1,3) obtain v where v: "map_of (zip cols cells) c = Some v"
    using map_of_zip_is_Some [of cols cells c] by auto
  then have "(c, v) \<in> set (zip cols cells)" by (rule map_of_SomeD)
  with assms(2,4) have "v \<noteq> NA"
    by (auto simp: row_has_na_def list_ex_iff isna_def)
  with v show ?thesis by blast
qed

subsection \<open>The cleaner: the three steps together\<close>

text \<open>
  \<open>clean_data\<close> returns a table exactly when both required columns exist, and the
  table is then the rows that \<open>keep_first\<close> and the missing-value filter leave, without
  the two dropped columns.
\<close>

lemma clean_data_Inr:
  "clean_data t = Inr t' \<longleftrightarrow>
     ''First Name'' \<in> set (columns t) \<and> ''Email'' \<in> set (columns t) \<and>
     t' = \<lparr>columns = filter (\<lambda>c. c \<notin> set [''Index'', ''Subscription Date'']) (columns t),
           rows = map (\<lambda>r. (fst r, prune_cells [''Index'', ''Subscription Date''] (columns t) (snd r)))
                    (filter (\<lambda>r. \<not> row_has_na (columns t) [''First Name'', ''Email''] (snd r))
                       (keep_first [] (rows t)))\<rparr>"
  by (auto simp: clean_data_def dropna_def drop_duplicates_def drop_columns_def Let_def
           split: sum.splits if_splits)

text \<open>When a required column does not exist, the error names the columns that do not.\<close>

lemma clean_data_Inl:
  "\<not> (''First Name'' \<in> set (columns t) \<and> ''Email'' \<in> set (columns t)) \<Longrightarrow>
     clean_data t =
       Inl (KeyError (filter (\<lambda>c. c \<notin> set (columns t)) [''First Name'', ''Email'']))"
  by (auto simp: clean_data_def dropna_def drop_duplicates_def Let_def)

text \<open>
  C1, as the code has it. In the output of \<open>clean_data\<close> on a rectangular table, every
  row has a First Name and an Email that are not the missing-value marker; and every
  row of the output comes from a row of the input whose First Name and Email are not
  missing, so the rows in which one of them is missing are removed.
\<close>

theorem clean_data_required:
  assumes "wf_table t" and "clean_data t = Inr t'"
  shows "list_all (\<lambda>r. has_value t' r ''First Name'' \<and> has_value t' r ''Email'') (rows t')
       \<and> list_all (\<lambda>r. list_ex (\<lambda>r0. came_from t r0 r
                          \<and> has_value t r0 ''First Name'' \<and> has_value t r0 ''Email'') (rows t))
           (rows t')"
proof -
  let ?names = "[''Index'', ''Subscription Date'']"
  let ?req = "[''First Name'', ''Email'']"
  from assms(2) have fn: "''First Name'' \<in> set (columns t)" and em: "''Email'' \<in> set (columns t)"
    and t': "t' = \<lparr>columns = filter (\<lambda>c. c \<notin> set ?names) (columns t),
           rows = map (\<lambda>r. (fst r, prune_cells ?names (columns t) (snd r)))
                    (filter (\<lambda>r. \<not> row_has_na (columns t) ?req (snd r))
                       (keep_first [] (rows t)))\<rparr>"
    by (simp_all add: clean_data_Inr)
  have main: "has_value t' r ''First Name'' \<and> has_value t' r ''Email''
      \<and> (\<exists>r0 \<in> set (rows t). came_from t r0 r
             \<and> has_value t r0 ''First Name'' \<and> has_value t r0 ''Email'')"
    if "r \<in> set (rows t')" for r
  proof -
    from that t' obtain r0 where r0: "r0 \<in> set (keep_first [] (rows t))"
      and na: "\<not> row_has_na (columns t) ?req (snd r0)"
      and r: "r = (fst r0, prune_cells ?names (columns t) (snd r0))"
      by auto
    from r0 have in_t: "r0 \<in> set (rows t)"
      using keep_first_set [of "[]" "rows t"] by auto
    with assms(1) have len: "length (snd r0) = length (columns t)"
      by (auto simp: wf_table_def list_all_iff)
    have a: "cell_of t' r c = map_of (zip (columns t) (snd r0)) c" if "c \<notin> set ?names" for c
      using that cell_of_pruned [of c ?names "columns t" "snd r0"]
      by (simp add: cell_of_def t' r)
    from no_na_has_value [OF fn _ len na] obtain v
      where v: "map_of (zip (columns t) (snd r0)) ''First Name'' = Some v" "v \<noteq> NA" by auto
    from no_na_has_value [OF em _ len na] obtain w
      where w: "map_of (zip (columns t) (snd r0)) ''Email'' = Some w" "w \<noteq> NA" by auto
    have out: "has_value t' r ''First Name'' \<and> has_value t' r ''Email''"
      using v w a [of "''First Name''"] a [of "''Email''"]
      by (simp add: has_value_def isna_def)
    have inp: "has_value t r0 ''First Name'' \<and> has_value t r0 ''Email''"
      using v w by (simp add: has_value_def isna_def cell_of_def)
    from out inp in_t r show ?thesis
      by (auto simp: came_from_def)
  qed
  then show ?thesis unfolding list_all_iff list_ex_iff by blast
qed

theorem clean_data_required_witness:
  "wf_table five_rows \<and> clean_data five_rows = Inr five_rows_clean
   \<and> (list_all (\<lambda>r. has_value five_rows_clean r ''First Name''
                    \<and> has_value five_rows_clean r ''Email'') (rows five_rows_clean)
      \<and> list_all (\<lambda>r. list_ex (\<lambda>r0. came_from five_rows r0 r
                          \<and> has_value five_rows r0 ''First Name''
                          \<and> has_value five_rows r0 ''Email'') (rows five_rows))
           (rows five_rows_clean))"
proof -
  have a: "wf_table five_rows" by code_simp
  have b: "clean_data five_rows = Inr five_rows_clean" by code_simp
  show ?thesis
    by (rule conjI [OF a conjI [OF b clean_data_required [OF a b]]])
qed

text \<open>
  C1 as the specification words it fails: an empty string is a value, not a missing
  value, so a row whose First Name is the empty string stays, and its First Name field
  is empty.
\<close>

theorem clean_data_required_counterexample:
  "clean_data empty_name = Inr empty_name
   \<and> cell_of empty_name (0, [Str [], Str ''ann@x.org'']) ''First Name'' = Some (Str [])
   \<and> \<not> list_all (\<lambda>r. nonempty_field empty_name r ''First Name''
                      \<and> nonempty_field empty_name r ''Email'') (rows empty_name)"
  by code_simp

text \<open>
  C4, as the code has it. When \<open>clean_data\<close> returns a table, its rows are, in order and
  without the dropped columns, a list \<open>kept\<close> of rows of the input such that: \<open>kept\<close>
  keeps the relative order of the input; and for any cells \<open>cs\<close>, the rows of \<open>kept\<close>
  with these cells are the first row of the input with these cells and no other, when
  First Name and Email have values in \<open>cs\<close>, and none when one of them is missing.
\<close>

theorem clean_data_first_occurrence:
  assumes "clean_data t = Inr t'"
  shows "\<exists>kept.
           rows t' = map (\<lambda>r. (fst r, prune_cells [''Index'', ''Subscription Date''] (columns t) (snd r))) kept
         \<and> subseq kept (rows t)
         \<and> (\<forall>cs. filter (\<lambda>r. snd r = cs) kept =
                  (if row_has_na (columns t) [''First Name'', ''Email''] cs then []
                   else take 1 (filter (\<lambda>r. snd r = cs) (rows t))))"
proof -
  let ?req = "[''First Name'', ''Email'']"
  let ?kept = "filter (\<lambda>r. \<not> row_has_na (columns t) ?req (snd r)) (keep_first [] (rows t))"
  from assms have a: "rows t' =
      map (\<lambda>r. (fst r, prune_cells [''Index'', ''Subscription Date''] (columns t) (snd r))) ?kept"
    by (simp add: clean_data_Inr)
  have b: "subseq ?kept (rows t)"
    using subseq_filter_left [of _ "keep_first [] (rows t)"] keep_first_subseq [of "[]" "rows t"]
    by (rule subseq_order.order_trans)
  have c: "filter (\<lambda>r. snd r = cs) ?kept =
             (if row_has_na (columns t) ?req cs then []
              else take 1 (filter (\<lambda>r. snd r = cs) (rows t)))" for cs
  proof -
    have "filter (\<lambda>r. snd r = cs) ?kept =
            filter (\<lambda>r. \<not> row_has_na (columns t) ?req (snd r))
              (filter (\<lambda>r. snd r = cs) (keep_first [] (rows t)))"
      by (simp add: conj_commute)
    also have "\<dots> = filter (\<lambda>r. \<not> row_has_na (columns t) ?req (snd r))
                       (take 1 (filter (\<lambda>r. snd r = cs) (rows t)))"
      by (simp add: keep_first_filter)
    also have "\<dots> = (if row_has_na (columns t) ?req cs then []
                     else take 1 (filter (\<lambda>r. snd r = cs) (rows t)))"
    proof (cases "filter (\<lambda>r. snd r = cs) (rows t)")
      case Nil
      then show ?thesis by simp
    next
      case (Cons r rs)
      then have "r \<in> set (filter (\<lambda>r. snd r = cs) (rows t))" by simp
      then have "snd r = cs" by simp
      with Cons show ?thesis by simp
    qed
    finally show ?thesis .
  qed
  from a b c show ?thesis by blast
qed

theorem clean_data_first_occurrence_witness:
  "clean_data five_rows = Inr five_rows_clean
   \<and> (\<exists>kept.
           rows five_rows_clean =
             map (\<lambda>r. (fst r, prune_cells [''Index'', ''Subscription Date''] (columns five_rows) (snd r))) kept
         \<and> subseq kept (rows five_rows)
         \<and> (\<forall>cs. filter (\<lambda>r. snd r = cs) kept =
                  (if row_has_na (columns five_rows) [''First Name'', ''Email''] cs then []
                   else take 1 (filter (\<lambda>r. snd r = cs) (rows five_rows)))))"
proof -
  have a: "clean_data five_rows = Inr five_rows_clean" by code_simp
  from a clean_data_first_occurrence [OF a] show ?thesis by simp
qed

text \<open>
  C4 as the specification words it fails: a row without Email that stands twice has no
  copy in the output.
\<close>

theorem clean_data_first_occurrence_counterexample:
  "length (filter (\<lambda>r. snd r = [Str ''Ann'', NA]) (rows duplicate_without_email)) = 2
   \<and> clean_data duplicate_without_email =
       Inr \<lparr>columns = [''First Name'', ''Email''], rows = []\<rparr>"
  by code_simp

text \<open>Cleaning a cleaned table removes the later copies of equal rows and nothing else.\<close>

lemma clean_data_twice:
  assumes "clean_data t = Inr t'"
  shows "clean_data t' = Inr (t'\<lparr>rows := keep_first [] (rows t')\<rparr>)"
proof -
  let ?names = "[''Index'', ''Subscription Date'']"
  let ?req = "[''First Name'', ''Email'']"
  let ?cols' = "filter (\<lambda>c. c \<notin> set ?names) (columns t)"
  from assms have fn: "''First Name'' \<in> set (columns t)" and em: "''Email'' \<in> set (columns t)"
    and t': "t' = \<lparr>columns = ?cols',
           rows = map (\<lambda>r. (fst r, prune_cells ?names (columns t) (snd r)))
                    (filter (\<lambda>r. \<not> row_has_na (columns t) ?req (snd r))
                       (keep_first [] (rows t)))\<rparr>"
    by (simp_all add: clean_data_Inr)
  have cols: "columns t' = ?cols'" using t' by simp
  have disj: "set ?req \<inter> set ?names = {}" by simp
  have shape: "\<exists>cells. snd r = prune_cells ?names (columns t) cells
                 \<and> \<not> row_has_na (columns t) ?req cells" if "r \<in> set (rows t')" for r
    using that t' by auto
  have nona: "\<not> row_has_na ?cols' ?req (snd r)" if "r \<in> set (rows t')" for r
    using shape [OF that] row_has_na_pruned [OF disj] by auto
  have fixed: "prune_cells ?names ?cols' (snd r) = snd r" if "r \<in> set (rows t')" for r
    using shape [OF that] prune_cells_pruned [of ?names "columns t"] by auto
  let ?rs = "keep_first [] (rows t')"
  have sub: "set ?rs \<subseteq> set (rows t')" by (rule keep_first_set)
  have f1: "filter (\<lambda>r. \<not> row_has_na ?cols' ?req (snd r)) ?rs = ?rs"
    using sub nona by (auto simp: filter_id_conv)
  have f2: "map (\<lambda>r. (fst r, prune_cells ?names ?cols' (snd r))) ?rs = ?rs"
    using sub fixed by (intro map_rows_id) auto
  have f3: "filter (\<lambda>c. c \<notin> set ?names) ?cols' = ?cols'" by simp
  have "''First Name'' \<in> set ?cols'" "''Email'' \<in> set ?cols'" using fn em by simp_all
  then show ?thesis
    unfolding clean_data_Inr cols using f1 f2 f3 t' by simp
qed

text \<open>
  C3, as the code has it. When \<open>clean_data\<close> returns \<open>t'\<close>, cleaning \<open>t'\<close> returns
  \<open>t'\<close> without its duplicate rows; it returns \<open>t'\<close> itself exactly when no two rows
  of \<open>t'\<close> have the same cells; and this is so for every rectangular table that has
  neither an Index nor a Subscription Date column.
\<close>

theorem clean_data_idempotent:
  assumes "clean_data t = Inr t'"
  shows "clean_data t' = Inr (drop_duplicates t')
       \<and> ((clean_data t' = Inr t') = distinct (map snd (rows t')))
       \<and> (wf_table t \<and> ''Index'' \<notin> set (columns t) \<and> ''Subscription Date'' \<notin> set (columns t)
            \<longrightarrow> clean_data t' = Inr t')"
proof -
  let ?names = "[''Index'', ''Subscription Date'']"
  let ?req = "[''First Name'', ''Email'']"
  have twice: "clean_data t' = Inr (t'\<lparr>rows := keep_first [] (rows t')\<rparr>)"
    using assms by (rule clean_data_twice)
  from assms have "''First Name'' \<in> set (columns t')"
    by (auto simp: clean_data_Inr)
  then have dd: "drop_duplicates t' = t'\<lparr>rows := keep_first [] (rows t')\<rparr>"
    by (auto simp: drop_duplicates_def)
  have eq: "(t'\<lparr>rows := keep_first [] (rows t')\<rparr> = t') = distinct (map snd (rows t'))"
  proof
    assume "t'\<lparr>rows := keep_first [] (rows t')\<rparr> = t'"
    then have "rows (t'\<lparr>rows := keep_first [] (rows t')\<rparr>) = rows t'" by simp
    then show "distinct (map snd (rows t'))" by (simp add: keep_first_id_iff)
  next
    assume "distinct (map snd (rows t'))"
    then show "t'\<lparr>rows := keep_first [] (rows t')\<rparr> = t'" by (simp add: keep_first_id_iff)
  qed
  have third: "clean_data t' = Inr t'"
    if wf: "wf_table t" and c1: "''Index'' \<notin> set (columns t)"
      and c2: "''Subscription Date'' \<notin> set (columns t)"
  proof -
    have disj: "set (columns t) \<inter> set ?names = {}" using c1 c2 by simp
    let ?kept = "filter (\<lambda>r. \<not> row_has_na (columns t) ?req (snd r)) (keep_first [] (rows t))"
    have rows: "rows t' = map (\<lambda>r. (fst r, prune_cells ?names (columns t) (snd r))) ?kept"
      using assms by (simp add: clean_data_Inr)
    have "set ?kept \<subseteq> set (rows t)" using keep_first_set [of "[]" "rows t"] by auto
    then have "\<And>r. r \<in> set ?kept \<Longrightarrow> length (snd r) = length (columns t)"
      using wf by (auto simp: wf_table_def list_all_iff)
    then have "map (\<lambda>r. (fst r, prune_cells ?names (columns t) (snd r))) ?kept = ?kept"
      using prune_cells_none [OF disj] by (intro map_rows_id) blast
    with rows have "rows t' = ?kept" by simp
    moreover have "distinct (map snd ?kept)"
      using keep_first_distinct [of "[]" "rows t"] by (rule distinct_map_filter)
    ultimately have "distinct (map snd (rows t'))" by simp
    with twice eq show ?thesis by simp
  qed
  from twice dd eq third show ?thesis by auto
qed

theorem clean_data_idempotent_witness:
  "clean_data five_rows_clean = Inr five_rows_clean
   \<and> wf_table five_rows_clean
   \<and> ''Index'' \<notin> set (columns five_rows_clean)
   \<and> ''Subscription Date'' \<notin> set (columns five_rows_clean)
   \<and> distinct (map snd (rows five_rows_clean))
   \<and> drop_duplicates five_rows_clean = five_rows_clean"
proof -
  have a: "clean_data five_rows_clean = Inr five_rows_clean" by code_simp
  have b: "wf_table five_rows_clean" by code_simp
  have c: "''Index'' \<notin> set (columns five_rows_clean)" by code_simp
  have d: "''Subscription Date'' \<notin> set (columns five_rows_clean)" by code_simp
  from clean_data_idempotent [OF a] a b c d show ?thesis by simp
qed

text \<open>
  C3 as the specification words it fails: two rows that differ in the Index column only
  both pass the first cleaning, which drops that column after it has removed the
  duplicates; the second cleaning sees two equal rows and removes one.
\<close>

theorem clean_data_idempotent_counterexample:
  "clean_data index_only_differs = Inr index_only_differs_clean
   \<and> clean_data index_only_differs_clean \<noteq> Inr index_only_differs_clean"
  by code_simp

text \<open>
  C5. A table that has neither a First Name nor an Email column makes \<open>clean_data\<close>
  fail with a \<^verbatim>\<open>KeyError\<close> that names the two columns; no table is returned.
\<close>

theorem clean_data_missing_columns:
  assumes "''First Name'' \<notin> set (columns t)" and "''Email'' \<notin> set (columns t)"
  shows "clean_data t = Inl (KeyError [''First Name'', ''Email''])"
  using assms by (simp add: clean_data_def dropna_def drop_duplicates_def Let_def)

theorem clean_data_missing_columns_witness:
  "''First Name'' \<notin> set (columns no_required_columns)
   \<and> ''Email'' \<notin> set (columns no_required_columns)
   \<and> clean_data no_required_columns = Inl (KeyError [''First Name'', ''Email''])"
proof -
  have a: "''First Name'' \<notin> set (columns no_required_columns)" by code_simp
  have b: "''Email'' \<notin> set (columns no_required_columns)" by code_simp
  from a b clean_data_missing_columns [OF a b] show ?thesis by simp
qed

subsection \<open>Email domain extraction\<close>

lemma split_ne: "split sep s \<noteq> []"
  by (induction s) (auto split: list.splits)

lemma split_no_sep: "sep \<notin> set s \<Longrightarrow> split sep s = [s]"
  by (induction s) (auto split: list.splits)

lemma split_hd: "hd (split sep s) = takeWhile (\<lambda>c. c \<noteq> sep) s"
  by (induction s) (auto split: list.splits simp: split_ne)

lemma split_sep:
  "sep \<in> set s \<Longrightarrow>
     split sep s = takeWhile (\<lambda>c. c \<noteq> sep) s # split sep (tl (dropWhile (\<lambda>c. c \<noteq> sep) s))"
  by (induction s) (auto split: list.splits simp: split_ne)

lemma item_split_1:
  "item (split sep s) (Suc 0) =
     (if sep \<in> set s
      then Inr (takeWhile (\<lambda>c. c \<noteq> sep) (tl (dropWhile (\<lambda>c. c \<noteq> sep) s)))
      else Inl IndexError)"
proof (cases "sep \<in> set s")
  case True
  let ?rest = "tl (dropWhile (\<lambda>c. c \<noteq> sep) s)"
  obtain w ws where ws: "split sep ?rest = w # ws"
    using split_ne [of sep ?rest] by (cases "split sep ?rest") auto
  have "w = takeWhile (\<lambda>c. c \<noteq> sep) ?rest"
    using split_hd [of sep ?rest] ws by simp
  with True ws show ?thesis
    by (simp add: item_def split_sep)
next
  case False
  then show ?thesis by (simp add: item_def split_no_sep)
qed

lemma single_sep_rest:
  "count_list s c = 1 \<Longrightarrow> c \<notin> set (tl (dropWhile (\<lambda>x. x \<noteq> c) s))"
  by (induction s) (auto simp: count_list_0_iff split: if_splits)

lemma single_sep_mem: "count_list s c = 1 \<Longrightarrow> c \<in> set s"
  using count_list_0_iff [of s c] by auto

text \<open>
  C2, as the code has it. For every string and every lower-casing, \<open>get_email_domain\<close>
  returns, when the string contains an \<open>@\<close>, the piece between the first \<open>@\<close> and the
  next one (or the end of the string), lower-cased, and the string \<open>Unknown\<close> when it
  contains none. For a string with exactly one \<open>@\<close> this is what the specification
  words: the substring after the \<open>@\<close>, lower-cased. The three examples of the
  specification hold, the first for every lower-casing that maps the ASCII letters as
  Python does.
\<close>

theorem get_email_domain_segment:
  "get_email_domain lower (Str s) =
     Inr (Str (if CHR ''@'' \<in> set s
               then lower (takeWhile (\<lambda>c. c \<noteq> CHR ''@'')
                             (tl (dropWhile (\<lambda>c. c \<noteq> CHR ''@'') s)))
               else ''Unknown''))
   \<and> (count_list s CHR ''@'' = 1 \<longrightarrow>
        get_email_domain lower (Str s) = Inr (Str (domain_of_spec lower s)))
   \<and> (lowers_ascii lower \<longrightarrow> get_email_domain lower (Str ''a@B.COM'') = Inr (Str ''b.com''))
   \<and> get_email_domain lower (Str ''not-an-email'') = Inr (Str ''Unknown'')
   \<and> get_email_domain lower (Str []) = Inr (Str ''Unknown'')"
proof -
  have general: "get_email_domain lower (Str t) =
     Inr (Str (if CHR ''@'' \<in> set t
               then lower (takeWhile (\<lambda>c. c \<noteq> CHR ''@'')
                             (tl (dropWhile (\<lambda>c. c \<noteq> CHR ''@'') t)))
               else ''Unknown''))" for t
    by (simp add: get_email_domain_def get_email_domain_try_def item_split_1)
  have single: "get_email_domain lower (Str s) = Inr (Str (domain_of_spec lower s))"
    if one: "count_list s CHR ''@'' = 1"
  proof -
    let ?rest = "tl (dropWhile (\<lambda>c. c \<noteq> CHR ''@'') s)"
    have "CHR ''@'' \<notin> set ?rest" using one by (rule single_sep_rest)
    then have tw: "takeWhile (\<lambda>c. c \<noteq> CHR ''@'') ?rest = ?rest"
      by (auto simp: takeWhile_eq_all_conv)
    have mem: "CHR ''@'' \<in> set s" using one by (rule single_sep_mem)
    have "get_email_domain lower (Str s) =
            Inr (Str (lower (takeWhile (\<lambda>c. c \<noteq> CHR ''@'') ?rest)))"
      by (simp only: general [of s] mem if_True)
    also have "\<dots> = Inr (Str (lower ?rest))"
      by (simp only: tw)
    also have "\<dots> = Inr (Str (domain_of_spec lower s))"
      by (simp only: domain_of_spec_def mem if_True)
    finally show ?thesis .
  qed
  have e1: "get_email_domain lower (Str ''a@B.COM'') = Inr (Str ''b.com'')"
    if la: "lowers_ascii lower"
  proof -
    have "get_email_domain lower (Str ''a@B.COM'') = Inr (Str (lower ''B.COM''))"
      by (simp add: get_email_domain_def get_email_domain_try_def item_def)
    moreover have "ascii_string ''B.COM''" by code_simp
    then have "lower ''B.COM'' = ascii_lower ''B.COM''"
      using la by (simp only: lowers_ascii_def)
    moreover have "ascii_lower ''B.COM'' = ''b.com''" by code_simp
    ultimately show ?thesis by (simp only:)
  qed
  have e2: "get_email_domain lower (Str ''not-an-email'') = Inr (Str ''Unknown'')"
    by (simp add: get_email_domain_def get_email_domain_try_def item_def)
  have e3: "get_email_domain lower (Str []) = Inr (Str ''Unknown'')"
    by (simp add: get_email_domain_def get_email_domain_try_def item_def)
  show ?thesis
    by (intro conjI impI general e2 e3, erule single, erule e1)
qed

theorem get_email_domain_segment_witness:
  "count_list ''a@B.COM'' CHR ''@'' = 1
   \<and> lowers_ascii ascii_lower
   \<and> get_email_domain ascii_lower (Str ''a@B.COM'')
       = Inr (Str (domain_of_spec ascii_lower ''a@B.COM''))
   \<and> get_email_domain ascii_lower (Str ''a@B.COM'') = Inr (Str ''b.com'')"
proof -
  note inst = get_email_domain_segment [of ascii_lower "''a@B.COM''"]
  have a: "count_list ''a@B.COM'' CHR ''@'' = 1" by code_simp
  have b: "lowers_ascii ascii_lower" by (simp add: lowers_ascii_def)
  have "count_list ''a@B.COM'' CHR ''@'' = 1 \<longrightarrow>
          get_email_domain ascii_lower (Str ''a@B.COM'')
            = Inr (Str (domain_of_spec ascii_lower ''a@B.COM''))"
    by (rule conjunct1 [OF conjunct2 [OF inst]])
  then have c: "get_email_domain ascii_lower (Str ''a@B.COM'')
                  = Inr (Str (domain_of_spec ascii_lower ''a@B.COM''))"
    using a by (rule mp)
  have "lowers_ascii ascii_lower \<longrightarrow>
          get_email_domain ascii_lower (Str ''a@B.COM'') = Inr (Str ''b.com'')"
    by (rule conjunct1 [OF conjunct2 [OF conjunct2 [OF inst]]])
  then have d: "get_email_domain ascii_lower (Str ''a@B.COM'') = Inr (Str ''b.com'')"
    using b by (rule mp)
  show ?thesis by (intro conjI a b c d)
qed

text \<open>
  C2 as the specification words it fails on a string with two \<open>@\<close>: the substring
  after the first \<open>@\<close> of \<open>a@b@c\<close> is \<open>b@c\<close>, and the code returns \<open>b\<close>. The string
  is ASCII and has no capital letter, so lower-casing leaves both as they are.
\<close>

theorem get_email_domain_counterexample:
  "get_email_domain ascii_lower (Str ''a@b@c'') = Inr (Str ''b'')
   \<and> domain_of_spec ascii_lower ''a@b@c'' = ''b@c''
   \<and> get_email_domain ascii_lower (Str ''a@b@c'')
       \<noteq> Inr (Str (domain_of_spec ascii_lower ''a@b@c''))"
  by code_simp

text \<open>
  C10. \<open>get_email_domain\<close> returns a string for every value, a string or not, and
  raises no error: every error of the body of the \<^verbatim>\<open>try\<close> is turned into the string
  \<open>Unknown\<close>, and a result of the body is returned as it is. A number, a missing value,
  the empty string and every string without \<open>@\<close> give \<open>Unknown\<close>.
\<close>

theorem get_email_domain_total:
  "(\<exists>s. get_email_domain lower v = Inr (Str s))
   \<and> (get_email_domain_try lower v = Inl e \<longrightarrow>
        get_email_domain lower v = Inr (Str ''Unknown''))
   \<and> (get_email_domain_try lower v = Inr x \<longrightarrow> get_email_domain lower v = Inr x)
   \<and> get_email_domain lower (Num n) = Inr (Str ''Unknown'')
   \<and> get_email_domain lower NA = Inr (Str ''Unknown'')
   \<and> get_email_domain lower (Str []) = Inr (Str ''Unknown'')
   \<and> (CHR ''@'' \<notin> set t \<longrightarrow> get_email_domain lower (Str t) = Inr (Str ''Unknown''))"
proof -
  have a: "\<exists>s. get_email_domain lower v = Inr (Str s)"
    by (cases v) (auto simp: get_email_domain_def get_email_domain_try_def split: sum.splits)
  have b: "get_email_domain lower v = Inr (Str ''Unknown'')"
    if "get_email_domain_try lower v = Inl e"
    using that by (simp add: get_email_domain_def)
  have c: "get_email_domain lower v = Inr x" if "get_email_domain_try lower v = Inr x"
    using that by (simp add: get_email_domain_def)
  have d: "get_email_domain lower (Num n) = Inr (Str ''Unknown'')"
    by (simp add: get_email_domain_def get_email_domain_try_def)
  have e: "get_email_domain lower NA = Inr (Str ''Unknown'')"
    by (simp add: get_email_domain_def get_email_domain_try_def)
  have f: "get_email_domain lower (Str []) = Inr (Str ''Unknown'')"
    by (simp add: get_email_domain_def get_email_domain_try_def item_def)
  have g: "get_email_domain lower (Str t) = Inr (Str ''Unknown'')" if "CHR ''@'' \<notin> set t"
    using that by (simp add: get_email_domain_def get_email_domain_try_def item_split_1)
  show ?thesis
    by (intro conjI impI a d e f, erule b, erule c, erule g)
qed

theorem get_email_domain_total_witness:
  "get_email_domain_try ascii_lower (Num 7) = Inl AttributeError
   \<and> get_email_domain ascii_lower (Num 7) = Inr (Str ''Unknown'')
   \<and> get_email_domain_try ascii_lower (Str ''a@B.COM'') = Inr (Str ''b.com'')
   \<and> get_email_domain ascii_lower (Str ''a@B.COM'') = Inr (Str ''b.com'')
   \<and> CHR ''@'' \<notin> set ''not-an-email''
   \<and> get_email_domain ascii_lower (Str ''not-an-email'') = Inr (Str ''Unknown'')"
proof -
  note inst = get_email_domain_total
  have a: "get_email_domain_try ascii_lower (Num 7) = Inl AttributeError" by code_simp
  have "get_email_domain_try ascii_lower (Num 7) = Inl AttributeError \<longrightarrow>
          get_email_domain ascii_lower (Num 7) = Inr (Str ''Unknown'')"
    by (rule conjunct1 [OF conjunct2 [OF inst]])
  then have b: "get_email_domain ascii_lower (Num 7) = Inr (Str ''Unknown'')"
    using a by (rule mp)
  have c: "get_email_domain_try ascii_lower (Str ''a@B.COM'') = Inr (Str ''b.com'')"
    by code_simp
  have "get_email_domain_try ascii_lower (Str ''a@B.COM'') = Inr (Str ''b.com'') \<longrightarrow>
          get_email_domain ascii_lower (Str ''a@B.COM'') = Inr (Str ''b.com'')"
    by (rule conjunct1 [OF conjunct2 [OF conjunct2 [OF inst]]])
  then have d: "get_email_domain ascii_lower (Str ''a@B.COM'') = Inr (Str ''b.com'')"
    using c by (rule mp)
  have e: "CHR ''@'' \<notin> set ''not-an-email''" by code_simp
  have "CHR ''@'' \<notin> set ''not-an-email'' \<longrightarrow>
          get_email_domain ascii_lower (Str ''not-an-email'') = Inr (Str ''Unknown'')"
    by (rule conjunct2 [OF conjunct2 [OF conjunct2 [OF conjunct2 [OF conjunct2
          [OF conjunct2 [OF inst]]]]]])
  then have f: "get_email_domain ascii_lower (Str ''not-an-email'') = Inr (Str ''Unknown'')"
    using e by (rule mp)
  show ?thesis by (intro conjI a b c d e f)
qed

subsection \<open>Company name suggestions\<close>

text \<open>The loop collects the matching candidates in the order of the list.\<close>

lemma suggestions_loop_eq:
  "suggestions_loop lower ratio q th cs =
     filter (\<lambda>p. snd p \<ge> th) (map (\<lambda>c. (c, ratio (lower q) (lower c))) cs)"
proof -
  have "foldl (suggestions_step lower ratio q th) acc cs =
          acc @ filter (\<lambda>p. snd p \<ge> th) (map (\<lambda>c. (c, ratio (lower q) (lower c))) cs)"
    for acc
    by (induction cs arbitrary: acc) (simp_all add: suggestions_step_def Let_def)
  then show ?thesis
    by (simp add: suggestions_loop_def)
qed

lemma sorted_reverse_sorted: "sorted_wrt (\<lambda>a b. f a \<ge> f b) (sorted_reverse f xs)"
proof -
  have "sorted (map f (sort_key f (rev xs)))" by simp
  then have "sorted_wrt (\<lambda>a b. f a \<le> f b) (sort_key f (rev xs))"
    by (simp add: sorted_map)
  then show ?thesis
    by (simp add: sorted_reverse_def sorted_wrt_rev)
qed

lemma sorted_reverse_stable:
  "filter (\<lambda>y. f y = k) (sorted_reverse f xs) = filter (\<lambda>y. f y = k) xs"
  by (simp add: sorted_reverse_def rev_filter [symmetric] sort_key_stable)

lemma length_sorted_reverse: "length (sorted_reverse f xs) = length xs"
  by (simp add: sorted_reverse_def)

lemma set_sorted_reverse: "set (sorted_reverse f xs) = set xs"
  by (simp add: sorted_reverse_def)

lemma length_filter_mono:
  "(\<And>x. P x \<Longrightarrow> Q x) \<Longrightarrow> length (filter P xs) \<le> length (filter Q xs)"
  by (induction xs) auto

text \<open>
  C6. The result is the first three elements of a list \<open>ys\<close> that is in descending
  order of score and in which, for every score \<open>k\<close>, the pairs of score \<open>k\<close> stand as
  they stand among the matching candidates (the candidates whose score reaches the
  threshold, in the order of the candidate list): a stable sort. With the flag off the
  result is empty.
\<close>

theorem suggest_sorted_stable:
  "\<exists>ys. sorted_wrt (\<lambda>a b. snd a \<ge> snd b) ys
      \<and> (\<forall>k. filter (\<lambda>p. snd p = k) ys =
               filter (\<lambda>p. snd p = k)
                 (filter (\<lambda>p. snd p \<ge> th) (map (\<lambda>c. (c, ratio (lower q) (lower c))) cs)))
      \<and> suggest_company_name avail lower ratio q cs th = (if avail then take 3 ys else [])"
proof -
  let ?ms = "filter (\<lambda>p. snd p \<ge> th) (map (\<lambda>c. (c, ratio (lower q) (lower c))) cs)"
  let ?ys = "sorted_reverse snd ?ms"
  have "sorted_wrt (\<lambda>a b. snd a \<ge> snd b) ?ys"
    by (rule sorted_reverse_sorted)
  moreover have "\<forall>k. filter (\<lambda>p. snd p = k) ?ys = filter (\<lambda>p. snd p = k) ?ms"
    by (simp add: sorted_reverse_stable)
  moreover have "suggest_company_name avail lower ratio q cs th = (if avail then take 3 ?ys else [])"
    by (simp add: suggest_company_name_def suggestions_loop_eq)
  ultimately show ?thesis by blast
qed

text \<open>
  Four candidates of equal score and one lower: the ties keep the order of the
  candidate list, and the fourth is cut off.
\<close>

lemma suggest_ties_example:
  "suggest_company_name True ascii_lower sample_ratio ''acme''
     [''Globex'', ''ACME'', ''acme'', ''Acme'', ''AcMe''] 20
   = [(''ACME'', 100), (''acme'', 100), (''Acme'', 100)]"
  by code_simp

text \<open>
  C7. Every pair returned has a score that reaches the threshold, and a higher
  threshold never gives more results.
\<close>

theorem suggest_threshold:
  "list_all (\<lambda>p. snd p \<ge> th) (suggest_company_name avail lower ratio q cs th)
   \<and> (th \<le> th' \<longrightarrow>
        length (suggest_company_name avail lower ratio q cs th')
          \<le> length (suggest_company_name avail lower ratio q cs th))"
proof -
  have "set (take 3 (sorted_reverse snd (suggestions_loop lower ratio q th cs)))
          \<subseteq> set (suggestions_loop lower ratio q th cs)"
    using set_take_subset [of 3 "sorted_reverse snd (suggestions_loop lower ratio q th cs)"]
    by (simp add: set_sorted_reverse)
  then have a: "list_all (\<lambda>p. snd p \<ge> th) (suggest_company_name avail lower ratio q cs th)"
    by (auto simp: suggest_company_name_def suggestions_loop_eq list_all_iff)
  have b: "length (suggest_company_name avail lower ratio q cs th')
          \<le> length (suggest_company_name avail lower ratio q cs th)" if "th \<le> th'"
  proof -
    have "length (suggestions_loop lower ratio q th' cs) \<le> length (suggestions_loop lower ratio q th cs)"
      unfolding suggestions_loop_eq using that by (intro length_filter_mono) simp
    then show ?thesis
      by (auto simp: suggest_company_name_def length_sorted_reverse)
  qed
  from a b show ?thesis by blast
qed

theorem suggest_threshold_witness:
  "list_all (\<lambda>p. snd p \<ge> 20)
     (suggest_company_name True ascii_lower sample_ratio ''acme'' [''Acme'', ''Globex''] 20)
   \<and> (20::int) \<le> 80
   \<and> length (suggest_company_name True ascii_lower sample_ratio ''acme'' [''Acme'', ''Globex''] 80) = 1
   \<and> length (suggest_company_name True ascii_lower sample_ratio ''acme'' [''Acme'', ''Globex''] 20) = 2"
proof -
  have "suggest_company_name True ascii_lower sample_ratio ''acme'' [''Acme'', ''Globex''] 80
       = [(''Acme'', 100)]"
    by code_simp
  moreover have "suggest_company_name True ascii_lower sample_ratio ''acme'' [''Acme'', ''Globex''] 20
       = [(''Acme'', 100), (''Globex'', 20)]"
    by code_simp
  ultimately show ?thesis
    using suggest_threshold [of 20 True ascii_lower sample_ratio "''acme''" "[''Acme'', ''Globex'']" 80]
    by simp
qed

text \<open>
  C8. At most three results, the limit the code fixes, and the empty list for an empty
  candidate list.
\<close>

theorem suggest_limit:
  "length (suggest_company_name avail lower ratio q cs th) \<le> 3
   \<and> suggest_company_name avail lower ratio q [] th = []"
  by (simp add: suggest_company_name_def suggestions_loop_def sorted_reverse_def)

text \<open>
  C9, as the code has it. The result depends on the availability flag: with the flag off
  it is the empty list whatever the query, the candidates and the threshold; with the
  flag on it is the result computed from them.
\<close>

theorem suggest_flag:
  "suggest_company_name False lower ratio q cs th = []
   \<and> suggest_company_name avail lower ratio q cs th =
       (if avail then suggest_company_name True lower ratio q cs th else [])"
  by (simp add: suggest_company_name_def)

text \<open>
  C9 as the specification words it fails: the same query, candidates and threshold give
  two results, one with the flag off and one with the flag on.
\<close>

theorem suggest_flag_counterexample:
  "suggest_company_name False ascii_lower sample_ratio ''Acme'' [''Acme''] 80 = []
   \<and> suggest_company_name True ascii_lower sample_ratio ''Acme'' [''Acme''] 80 = [(''Acme'', 100)]
   \<and> suggest_company_name False ascii_lower sample_ratio ''Acme'' [''Acme''] 80
       \<noteq> suggest_company_name True ascii_lower sample_ratio ''Acme'' [''Acme''] 80"
  by code_simp

end
